theory Spec2Isabelle
  imports Main
begin

section \<open>Version negotiation middleware and versioned routes (version_middleware.py)\<close>

text \<open>
  A shallow embedding of \<^verbatim>\<open>src/version_middleware.py\<close>: the ASGI middleware
  \<^verbatim>\<open>AcceptHeaderVersionMiddleware\<close>, the route class \<^verbatim>\<open>VersionedAPIRoute\<close>, the
  decorator \<^verbatim>\<open>VersionedAPIRouter.version\<close> and the module-level application.
  Exceptions are values of \<open>error\<close>; a function that can raise returns \<open>error + 'a\<close>.
  Byte strings and the text obtained from them by \<^verbatim>\<open>decode("latin1")\<close> are both
  \<open>string\<close>: an Isabelle \<open>char\<close> is one byte, and latin1 maps byte \<open>n\<close> to code point \<open>n\<close>.
\<close>

subsection \<open>Errors\<close>

datatype error =
    KeyError string
  | AttributeError string
  | HTTPException nat string
  | ReUnmodelled

text \<open>
  \<open>KeyError k\<close>: a dict lookup \<^verbatim>\<open>scope[k]\<close> on a missing key.
  \<open>AttributeError a\<close>: reading a missing attribute \<open>a\<close> of an object.
  \<open>HTTPException status detail\<close>: \<^verbatim>\<open>starlette.exceptions.HTTPException\<close>.
  \<open>ReUnmodelled\<close>: the pattern handed to \<^verbatim>\<open>re.search\<close> lies outside the fragment of
  Python's regular expression syntax modelled below (this includes the patterns that
  Python rejects with \<^verbatim>\<open>re.error\<close>); the model makes no statement about such a call.
\<close>

subsection \<open>The fragment of Python's \<^verbatim>\<open>re\<close> module used by the middleware\<close>

text \<open>
  The middleware builds its pattern by interpolating the configured vendor prefix into
  a raw string and hands the resulting text to \<^verbatim>\<open>re.search\<close>, so the pattern is
  parsed as a whole, the prefix included. The fragment modelled here: literal
  characters, \<^verbatim>\<open>.\<close>, an escaped non-alphanumeric character, a class of the
  form \<^verbatim>\<open>[a-b]\<close>, the greedy repetitions \<^verbatim>\<open>*\<close> and \<^verbatim>\<open>+\<close> of one such
  single-character matcher, capturing groups \<^verbatim>\<open>(...)\<close> and the anchor \<^verbatim>\<open>^\<close>.
  No flags are passed, so \<^verbatim>\<open>.\<close> excludes the newline and \<^verbatim>\<open>^\<close> matches at the
  start of the string only. Everything else (alternation, \<^verbatim>\<open>?\<close>, \<^verbatim>\<open>{m,n}\<close>,
  \<^verbatim>\<open>$\<close>, repeated groups, lazy and possessive repetition, other classes and escapes)
  is outside the fragment.
\<close>

definition backslash :: char where
  "backslash = CHR 0x5C"

definition newline :: char where
  "newline = CHR 0x0A"

datatype cset = Lit char | AnyChar | Range char char

datatype item = Bol | One cset | Star cset | Plus cset | Open nat | Close nat

text \<open>
  A parsed pattern is a sequence of items. Groups cannot be repeated and there is no
  alternation in the fragment, so a capturing group is a pair of markers \<open>Open g\<close>,
  \<open>Close g\<close> carrying the group's number (Python numbers groups from 1 in the order
  of their opening parentheses).
\<close>

definition special :: "char \<Rightarrow> bool" where
  "special c = (c \<in> set ''.^$*+?{}[]|()'' \<or> c = backslash)"

definition ascii_alnum :: "char \<Rightarrow> bool" where
  "ascii_alnum c =
     (let n = (of_char c :: nat)
      in (48 \<le> n \<and> n \<le> 57) \<or> (65 \<le> n \<and> n \<le> 90) \<or> (97 \<le> n \<and> n \<le> 122))"

fun quantified :: "string \<Rightarrow> bool" where
  "quantified [] = False"
| "quantified (c # cs) = (c \<in> set ''*+?{'')"

text \<open>
  \<open>atom\<close> reads one single-character matcher from the head of the pattern and returns
  it with the rest of the pattern.
\<close>

fun atom :: "string \<Rightarrow> (cset \<times> string) option" where
  "atom [] = None"
| "atom (c # cs) =
     (if c = CHR ''.'' then Some (AnyChar, cs)
      else if c = backslash then
        (case cs of
           [] \<Rightarrow> None
         | e # cs' \<Rightarrow> if ascii_alnum e then None else Some (Lit e, cs'))
      else if c = CHR ''['' then
        (case cs of
           a # d # b # r # cs' \<Rightarrow>
             if d = CHR ''-'' \<and> r = CHR '']'' \<and> ascii_alnum a \<and> ascii_alnum b
                \<and> (of_char a :: nat) \<le> of_char b
             then Some (Range a b, cs') else None
         | _ \<Rightarrow> None)
      else if special c then None
      else Some (Lit c, cs))"

text \<open>
  \<open>parse n stk p\<close>: \<open>n\<close> is the number of the next group to open, \<open>stk\<close> the groups
  that are open. \<open>None\<close>: the pattern is outside the fragment.
\<close>

function parse :: "nat \<Rightarrow> nat list \<Rightarrow> string \<Rightarrow> item list option" where
  "parse n stk [] = (if stk = [] then Some [] else None)"
| "parse n stk (c # cs) =
     (if c = CHR ''('' then
        (if quantified cs then None
         else map_option (Cons (Open n)) (parse (Suc n) (n # stk) cs))
      else if c = CHR '')'' then
        (case stk of
           [] \<Rightarrow> None
         | g # stk' \<Rightarrow>
             if quantified cs then None
             else map_option (Cons (Close g)) (parse n stk' cs))
      else if c = CHR ''^'' then
        (if quantified cs then None
         else map_option (Cons Bol) (parse n stk cs))
      else
        (case atom (c # cs) of
           None \<Rightarrow> None
         | Some (a, rest) \<Rightarrow>
             (case rest of
                [] \<Rightarrow> map_option (Cons (One a)) (parse n stk rest)
              | q # rest' \<Rightarrow>
                  if q = CHR ''*'' then
                    (if quantified rest' then None
                     else map_option (Cons (Star a)) (parse n stk rest'))
                  else if q = CHR ''+'' then
                    (if quantified rest' then None
                     else map_option (Cons (Plus a)) (parse n stk rest'))
                  else if quantified rest then None
                  else map_option (Cons (One a)) (parse n stk rest))))"
  by pat_completeness auto
termination
  by (relation "measure (\<lambda>(n, stk, p). length p)")
     (auto split: if_splits list.splits)

fun cmatch :: "cset \<Rightarrow> char \<Rightarrow> bool" where
  "cmatch (Lit c) x = (x = c)"
| "cmatch AnyChar x = (x \<noteq> newline)"
| "cmatch (Range a b) x = ((of_char a :: nat) \<le> of_char x \<and> (of_char x :: nat) \<le> of_char b)"

fun first_some :: "(nat \<Rightarrow> 'a option) \<Rightarrow> nat list \<Rightarrow> 'a option" where
  "first_some f [] = None"
| "first_some f (i # is) = (case f i of Some r \<Rightarrow> Some r | None \<Rightarrow> first_some f is)"

type_synonym groups = "nat \<rightharpoonup> string"

text \<open>
  The backtracking matcher. \<open>run items pos s opened gs\<close> matches \<open>items\<close> against the
  text \<open>s\<close> that starts at position \<open>pos\<close> of the searched string; \<open>opened\<close> holds, for
  every group opened so far, the text that remained when it was opened, and \<open>gs\<close> the
  groups captured so far. A greedy repetition first takes as many characters as it
  can and gives them back one by one while the rest of the pattern fails.
\<close>

fun run :: "item list \<Rightarrow> nat \<Rightarrow> string \<Rightarrow> (nat \<rightharpoonup> string) \<Rightarrow> groups \<Rightarrow> groups option" where
  "run [] pos s opened gs = Some gs"
| "run (Bol # r) pos s opened gs = (if pos = 0 then run r pos s opened gs else None)"
| "run (One c # r) pos s opened gs =
     (case s of
        [] \<Rightarrow> None
      | x # xs \<Rightarrow> if cmatch c x then run r (Suc pos) xs opened gs else None)"
| "run (Star c # r) pos s opened gs =
     first_some (\<lambda>k. run r (pos + k) (drop k s) opened gs)
       (rev [0 ..< Suc (length (takeWhile (cmatch c) s))])"
| "run (Plus c # r) pos s opened gs =
     first_some (\<lambda>k. run r (pos + k) (drop k s) opened gs)
       (rev [1 ..< Suc (length (takeWhile (cmatch c) s))])"
| "run (Open g # r) pos s opened gs = run r pos s (opened(g \<mapsto> s)) gs"
| "run (Close g # r) pos s opened gs =
     (case opened g of
        None \<Rightarrow> None
      | Some s0 \<Rightarrow> run r pos s opened (gs(g \<mapsto> take (length s0 - length s) s0)))"

text \<open>
  \<^verbatim>\<open>re.search(pattern, string)\<close>: the first position from which the pattern matches.
  The result \<open>Some gs\<close> stands for the match object, \<open>gs g\<close> for \<^verbatim>\<open>match.group(g)\<close>.
\<close>

definition search :: "string \<Rightarrow> string \<Rightarrow> error + groups option" where
  "search pattern s =
     (case parse 1 [] pattern of
        None \<Rightarrow> Inl ReUnmodelled
      | Some items \<Rightarrow>
          Inr (first_some (\<lambda>i. run items i (drop i s) Map.empty Map.empty)
                 [0 ..< Suc (length s)]))"

subsection \<open>The ASGI scope\<close>

text \<open>
  The scope is the request's dict. Its keys that this program or the routing around it
  reads or writes are fields of the record; a key that may be absent is an \<open>option\<close>
  (\<open>None\<close>: the dict has no such key), and \<open>others\<close> holds every other key. The
  objects that are only passed around: a handler function and the route of a handler
  function (each given by the function's number), a dict of path parameters, and any
  other object (given by a number, its identity).
\<close>

datatype pyobject = Object nat | Function nat | Dict "(string \<times> string) list" | RouteOf nat

record scope =
  scope_type :: string
  path :: string
  http_method :: string
  headers :: "(string \<times> string) list"
  app :: "pyobject option"
  latest_version :: "string option"
  requested_version :: "string option"
  others :: "string \<rightharpoonup> pyobject"

text \<open>
  \<^verbatim>\<open>dict(pairs)\<close>: of several pairs with the same key, the last one stays.
\<close>

definition dict :: "('k \<times> 'v) list \<Rightarrow> 'k \<rightharpoonup> 'v" where
  "dict pairs = map_of (rev pairs)"

definition decode_latin1 :: "string \<Rightarrow> string" where
  "decode_latin1 b = b"

subsection \<open>AcceptHeaderVersionMiddleware\<close>

record 'r middleware =
  self_app :: "scope \<Rightarrow> error + 'r"
  self_latest_version :: string
  self_accept_regex :: string

text \<open>
  \<^verbatim>\<open>__init__\<close>. The pattern is the raw f-string
  \<^verbatim>\<open>rf"^application/vnd\.{vendor_prefix}\.v([0-9]+)\+.*"\<close>: the text of
  \<^verbatim>\<open>vendor_prefix\<close> is inserted as it is.
\<close>

definition init :: "(scope \<Rightarrow> error + 'r) \<Rightarrow> string \<Rightarrow> string \<Rightarrow> 'r middleware" where
  "init inner vendor_prefix latest =
     \<lparr> self_app = inner,
       self_latest_version = latest,
       self_accept_regex =
         ''^application/vnd'' @ [backslash] @ ''.'' @ vendor_prefix
           @ [backslash] @ ''.v([0-9]+)'' @ [backslash] @ ''+.*'' \<rparr>"

text \<open>
  \<^verbatim>\<open>__call__\<close>, in two steps: \<open>extract_version\<close> is the body up to the last line and returns
  the scope as the body leaves it; \<open>call\<close> hands that scope to the inner application
  (\<^verbatim>\<open>return await self.app(scope, receive, send)\<close>).
\<close>

definition extract_version :: "'r middleware \<Rightarrow> scope \<Rightarrow> error + scope" where
  "extract_version self scope =
     (if scope_type scope \<in> {''http'', ''websocket''} then
        (let hs = dict (headers scope);
             scope = scope\<lparr> latest_version := Some (self_latest_version self) \<rparr>;
             scope = scope\<lparr> requested_version := Some (self_latest_version self) \<rparr>
         in case hs ''accept'' of
              None \<Rightarrow> Inr scope
            | Some accept_header \<Rightarrow>
                (case search (self_accept_regex self) (decode_latin1 accept_header) of
                   Inl e \<Rightarrow> Inl e
                 | Inr None \<Rightarrow> Inr scope
                 | Inr (Some match) \<Rightarrow>
                     (case match 1 of
                        None \<Rightarrow> Inr scope
                      | Some api_version \<Rightarrow>
                          Inr (scope\<lparr> requested_version := Some api_version \<rparr>))))
      else Inr scope)"

definition call :: "'r middleware \<Rightarrow> scope \<Rightarrow> error + 'r" where
  "call self scope =
     (case extract_version self scope of
        Inl e \<Rightarrow> Inl e
      | Inr scope' \<Rightarrow> self_app self scope')"

subsection \<open>VersionedAPIRouter.version and VersionedAPIRoute\<close>

text \<open>
  A handler function is an object with attributes. For \<open>ts :: tags\<close>, \<open>ts f\<close> is the
  value of the attribute \<^verbatim>\<open>__api_version__\<close> of the function \<open>f\<close>, \<open>None\<close> when \<open>f\<close>
  has no such attribute. The decorator returned by \<^verbatim>\<open>router.version(api_version)\<close>
  sets the attribute and returns the function.
\<close>

type_synonym func = nat

type_synonym tags = "func \<rightharpoonup> string"

definition version :: "string \<Rightarrow> func \<Rightarrow> tags \<Rightarrow> func \<times> tags" where
  "version api_version f ts = (f, ts(f \<mapsto> api_version))"

datatype Match = NONE | PARTIAL | FULL

type_synonym child_scope = "(string \<times> pyobject) list"

text \<open>
  A route holds its endpoint. \<open>super_matches\<close> stands for the inherited
  \<^verbatim>\<open>APIRoute.matches\<close> of the framework (path and method matching), which is not part
  of this repository.
\<close>

record route =
  endpoint :: func
  super_matches :: "scope \<Rightarrow> Match \<times> child_scope"

definition endpoint_version :: "tags \<Rightarrow> route \<Rightarrow> error + string" where
  "endpoint_version ts self =
     (case ts (endpoint self) of
        None \<Rightarrow> Inl (AttributeError ''__api_version__'')
      | Some v \<Rightarrow> Inr v)"

definition is_version_matching :: "tags \<Rightarrow> route \<Rightarrow> scope \<Rightarrow> error + bool" where
  "is_version_matching ts self scope =
     (case requested_version scope of
        None \<Rightarrow> Inl (KeyError ''requested_version'')
      | Some requested \<Rightarrow>
          (case endpoint_version ts self of
             Inl e \<Rightarrow> Inl e
           | Inr v \<Rightarrow>
               if v = ''latest'' then
                 (case latest_version scope of
                    None \<Rightarrow> Inl (KeyError ''latest_version'')
                  | Some latest \<Rightarrow> Inr (requested = latest \<or> v = requested))
               else Inr (v = requested)))"

definition matches :: "tags \<Rightarrow> route \<Rightarrow> scope \<Rightarrow> error + Match \<times> child_scope" where
  "matches ts self scope =
     (case super_matches self scope of
        (match, child) \<Rightarrow>
          if match = NONE \<or> match = PARTIAL then Inr (match, child)
          else
            (case is_version_matching ts self scope of
               Inl e \<Rightarrow> Inl e
             | Inr ok \<Rightarrow> if ok then Inr (FULL, child) else Inr (PARTIAL, child)))"

text \<open>
  What \<open>handle\<close> does is a sequence of events: a response sent through \<^verbatim>\<open>send\<close>, and
  the call of the inherited \<^verbatim>\<open>APIRoute.handle\<close>, which runs the route's endpoint (the
  handler body).
\<close>

datatype response = PlainTextResponse string nat

datatype event = Sent response | SuperHandle func | Default

definition detail :: "string \<Rightarrow> string \<Rightarrow> string" where
  "detail requested latest =
     ''Requested version '' @ requested @ '' does not exist. ''
       @ ''Latest available version is '' @ latest @ ''.''"

definition handle :: "tags \<Rightarrow> route \<Rightarrow> scope \<Rightarrow> error + event list" where
  "handle ts self scope =
     (case is_version_matching ts self scope of
        Inl e \<Rightarrow> Inl e
      | Inr ok \<Rightarrow>
          if \<not> ok then
            (case app scope of
               Some a \<Rightarrow>
                 (case requested_version scope of
                    None \<Rightarrow> Inl (KeyError ''requested_version'')
                  | Some requested \<Rightarrow>
                      (case latest_version scope of
                         None \<Rightarrow> Inl (KeyError ''latest_version'')
                       | Some latest \<Rightarrow> Inl (HTTPException 406 (detail requested latest))))
             | None \<Rightarrow>
                 Inr [Sent (PlainTextResponse ''Not Acceptable'' 406),
                      SuperHandle (endpoint self)])
          else Inr [SuperHandle (endpoint self)])"

subsection \<open>The router's dispatch and the application of the module\<close>

text \<open>
  Modelled from the spec: the dispatch loop of the framework's router, which is not
  part of the repository (the spec's dispatch algorithm: the candidates are tried in
  registration order, the first full match is handled; when there is none, the first
  partial match is handled; when no route matches the path at all, the request goes to
  the router's default, the "not found" answer). Before a route handles the request,
  the child scope its \<open>matches\<close> returned is merged into the scope.
\<close>

definition update_scope :: "scope \<Rightarrow> child_scope \<Rightarrow> scope" where
  "update_scope scope child = scope\<lparr> others := others scope ++ dict child \<rparr>"

fun dispatch :: "tags \<Rightarrow> route list \<Rightarrow> (route \<times> child_scope) option \<Rightarrow> scope \<Rightarrow> error + event list" where
  "dispatch ts [] partial scope =
     (case partial of
        None \<Rightarrow> Inr [Default]
      | Some (r, child) \<Rightarrow> handle ts r (update_scope scope child))"
| "dispatch ts (r # rs) partial scope =
     (case matches ts r scope of
        Inl e \<Rightarrow> Inl e
      | Inr (match, child) \<Rightarrow>
          (case match of
             FULL \<Rightarrow> handle ts r (update_scope scope child)
           | PARTIAL \<Rightarrow>
               (case partial of
                  None \<Rightarrow> dispatch ts rs (Some (r, child)) scope
                | Some p \<Rightarrow> dispatch ts rs partial scope)
           | NONE \<Rightarrow> dispatch ts rs partial scope))"

text \<open>
  Modelled from the spec: the external path-matching engine, for a route registered
  with \<^verbatim>\<open>router.get(path)\<close> at a path without parameters. It is the framework's
  \<^verbatim>\<open>APIRoute.matches\<close>, which is not part of the repository: no match, with an empty
  child scope, unless the request is an HTTP request for the path; otherwise a full
  match when the method is \<^verbatim>\<open>GET\<close> (the only method of such a route) and a partial
  match for any other method, with a child scope that holds the endpoint, the (empty)
  path parameters and the route.
\<close>

definition get_route :: "string \<Rightarrow> func \<Rightarrow> route" where
  "get_route p f =
     \<lparr> endpoint = f,
       super_matches = (\<lambda>scope.
         if scope_type scope = ''http'' \<and> path scope = p then
           (if http_method scope \<in> {''GET''} then FULL else PARTIAL,
            [(''endpoint'', Function f), (''path_params'', Dict []), (''route'', RouteOf f)])
         else (NONE, [])) \<rparr>"

text \<open>
  The module registers four handlers at \<^verbatim>\<open>/foo\<close>. Of the two decorators of a
  handler, \<^verbatim>\<open>router.version(v)\<close> runs first and tags the function, then
  \<^verbatim>\<open>router.get("/foo")\<close> appends a route for it to the router's routes.
\<close>

definition foo_v1 :: func where "foo_v1 = 1"

definition foo_v2 :: func where "foo_v2 = 2"

definition foo_v3 :: func where "foo_v3 = 3"

definition foo_latest :: func where "foo_latest = 4"

definition register :: "string \<Rightarrow> string \<Rightarrow> func \<Rightarrow> tags \<times> route list \<Rightarrow> tags \<times> route list" where
  "register p api_version f st =
     (case version api_version f (fst st) of
        (f', ts') \<Rightarrow> (ts', snd st @ [get_route p f']))"

definition router :: "tags \<times> route list" where
  "router =
     register ''/foo'' ''latest'' foo_latest
       (register ''/foo'' ''3'' foo_v3
         (register ''/foo'' ''2'' foo_v2
           (register ''/foo'' ''1'' foo_v1 (Map.empty, []))))"

text \<open>
  The application: the framework puts itself into the scope under \<^verbatim>\<open>"app"\<close>, then
  the middleware added with \<^verbatim>\<open>vendor_prefix="mytestapp", latest_version="4"\<close> runs
  around the router.
\<close>

definition app_object :: pyobject where "app_object = Object 0"

definition application :: "scope \<Rightarrow> error + event list" where
  "application scope =
     call (init (dispatch (fst router) (snd router) None) ''mytestapp'' ''4'')
       (scope\<lparr> app := Some app_object \<rparr>)"

definition get_foo :: "(string \<times> string) list \<Rightarrow> scope" where
  "get_foo hs =
     \<lparr> scope_type = ''http'', path = ''/foo'', http_method = ''GET'', headers = hs,
       app = None, latest_version = None, requested_version = None,
       others = Map.empty \<rparr>"

subsection \<open>Notions used in the statements and proofs\<close>

text \<open>
  \<open>lits l\<close> is the parsed form of a text without special characters; \<open>digit\<close> is the
  class \<^verbatim>\<open>[0-9]\<close>; \<open>tail_items\<close> is the parsed form of \<^verbatim>\<open>([0-9]+)\+.*\<close>; \<open>head P\<close> is
  the text a header must start with when the prefix \<open>P\<close> is read literally.
\<close>

definition lits :: "string \<Rightarrow> item list" where
  "lits l = map (\<lambda>c. One (Lit c)) l"

definition digit :: cset where
  "digit = Range CHR ''0'' CHR ''9''"

definition tail_items :: "item list" where
  "tail_items = [Open 1, Plus digit, Close 1, One (Lit CHR ''+''), Star AnyChar]"

definition head :: "string \<Rightarrow> string" where
  "head P = ''application/vnd.'' @ P @ ''.v''"

section \<open>The pattern of the middleware for a prefix without special characters\<close>

subsection \<open>Parsing\<close>

lemma special_simps:
  "\<not> special c \<Longrightarrow> c \<noteq> CHR ''('' \<and> c \<noteq> CHR '')'' \<and> c \<noteq> CHR ''^'' \<and> c \<noteq> CHR ''.''
     \<and> c \<noteq> backslash \<and> c \<noteq> CHR ''['' \<and> c \<noteq> CHR ''*'' \<and> c \<noteq> CHR ''+''
     \<and> c \<noteq> CHR ''?'' \<and> c \<noteq> CHR ''{''"
  by (auto simp: special_def)

lemma parse_plain:
  assumes "\<forall>c\<in>set l. \<not> special c" and "\<not> quantified rest"
  shows "parse n stk (l @ rest) = map_option (\<lambda>r. lits l @ r) (parse n stk rest)"
  using assms
proof (induction l)
  case Nil
  show ?case by (simp add: lits_def option.map_ident)
next
  case (Cons c l)
  then have c: "\<not> special c" and l: "\<forall>c\<in>set l. \<not> special c" by simp_all
  have nq: "\<not> quantified (l @ rest)"
    using l Cons.prems(2) by (cases l) (auto simp: special_def)
  have a: "atom (c # l @ rest) = Some (Lit c, l @ rest)"
    using special_simps [OF c] c by simp
  have "parse n stk (c # l @ rest) = map_option (Cons (One (Lit c))) (parse n stk (l @ rest))"
  proof (cases "l @ rest")
    case Nil
    then show ?thesis using special_simps [OF c] a by (simp del: atom.simps)
  next
    case (Cons q rest')
    with nq have "q \<noteq> CHR ''*''" "q \<noteq> CHR ''+''" by auto
    then show ?thesis using special_simps [OF c] a nq Cons by (simp del: atom.simps)
  qed
  also have "\<dots> = map_option (\<lambda>r. lits (c # l) @ r) (parse n stk rest)"
    using Cons.IH [OF l Cons.prems(2)] by (simp add: lits_def option.map_comp comp_def)
  finally show ?case by simp
qed

lemma parse_tail:
  "parse 1 [] (backslash # ''.v([0-9]+)'' @ [backslash] @ ''+.*'')
     = Some (lits ''.v'' @ tail_items)"
  by (simp add: backslash_def ascii_alnum_def special_def lits_def tail_items_def digit_def)

lemma parse_accept_regex:
  assumes "\<forall>c\<in>set P. \<not> special c"
  shows "parse 1 [] (self_accept_regex (init inner P L))
           = Some (Bol # lits (''application/vnd.'' @ P @ ''.v'') @ tail_items)"
proof -
  let ?t = "backslash # ''.v([0-9]+)'' @ [backslash] @ ''+.*''"
  have nq: "\<not> quantified ?t" by (simp add: backslash_def)
  have p4: "parse 1 [] (P @ ?t) = Some (lits P @ lits ''.v'' @ tail_items)"
    using parse_plain [OF assms nq, of 1 "[]"] parse_tail by simp
  have nqz: "\<not> quantified (P @ ?t)"
    using assms by (cases P) (auto simp: special_def backslash_def)
  have p3: "parse 1 [] (backslash # CHR ''.'' # P @ ?t)
              = Some (One (Lit CHR ''.'') # lits P @ lits ''.v'' @ tail_items)"
  proof (cases "P @ ?t")
    case Nil
    then show ?thesis by simp
  next
    case (Cons q rest')
    with nqz have "q \<noteq> CHR ''*''" "q \<noteq> CHR ''+''" by auto
    moreover have "atom (backslash # CHR ''.'' # P @ ?t) = Some (Lit CHR ''.'', P @ ?t)"
      by (simp add: backslash_def ascii_alnum_def)
    moreover have "backslash \<noteq> CHR ''(''" "backslash \<noteq> CHR '')''" "backslash \<noteq> CHR ''^''"
      by (simp_all add: backslash_def)
    ultimately show ?thesis using nqz Cons p4 by (simp del: atom.simps)
  qed
  have pl: "\<forall>c\<in>set ''application/vnd''. \<not> special c"
    by (simp add: special_def backslash_def)
  have nqy: "\<not> quantified (backslash # CHR ''.'' # P @ ?t)" by (simp add: backslash_def)
  have p2: "parse 1 [] (''application/vnd'' @ backslash # CHR ''.'' # P @ ?t)
              = Some (lits ''application/vnd'' @ One (Lit CHR ''.'') # lits P @ lits ''.v'' @ tail_items)"
    using parse_plain [OF pl nqy, of 1 "[]"] p3 by simp
  have p1: "parse 1 [] (CHR ''^'' # ''application/vnd'' @ backslash # CHR ''.'' # P @ ?t)
              = Some (Bol # lits ''application/vnd'' @ One (Lit CHR ''.'') # lits P @ lits ''.v'' @ tail_items)"
    using p2 by simp
  have e: "self_accept_regex (init inner P L)
             = CHR ''^'' # ''application/vnd'' @ backslash # CHR ''.'' # P @ ?t"
    by (simp add: init_def)
  show ?thesis unfolding e p1 by (simp add: lits_def)
qed

subsection \<open>Matching\<close>

lemma run_lits:
  "run (lits l @ r) pos s opened gs =
     (if take (length l) s = l then run r (pos + length l) (drop (length l) s) opened gs
      else None)"
proof (induction l arbitrary: pos s)
  case Nil
  show ?case by (simp add: lits_def)
next
  case (Cons c l)
  show ?case
  proof (cases s)
    case Nil
    then show ?thesis by (simp add: lits_def)
  next
    case (Cons x xs)
    then show ?thesis using Cons.IH [of "Suc pos" xs] by (auto simp: lits_def)
  qed
qed

lemma first_some_None: "first_some f ks = None \<longleftrightarrow> (\<forall>k\<in>set ks. f k = None)"
  by (induction ks) (auto split: option.splits)

lemma run_after_digits:
  assumes "k \<le> length s"
  shows "run [Close 1, One (Lit CHR ''+''), Star AnyChar] (pos + k) (drop k s) (opened(1 \<mapsto> s)) gs
           = (case drop k s of
                [] \<Rightarrow> None
              | x # xs \<Rightarrow> if x = CHR ''+'' then Some (gs(1 \<mapsto> take k s)) else None)"
  using assms by (simp split: list.splits)

lemma first_some_head: "first_some f ks = None \<Longrightarrow> first_some f (k # ks) = f k"
  by (simp split: option.splits)

lemma not_plus_digit: "cmatch digit x \<Longrightarrow> x \<noteq> CHR ''+''"
  by (auto simp: digit_def)

lemma run_tail_items:
  "run tail_items pos s opened gs =
     (if takeWhile (cmatch digit) s \<noteq> [] \<and> (\<exists>rest. dropWhile (cmatch digit) s = CHR ''+'' # rest)
      then Some (gs(1 \<mapsto> takeWhile (cmatch digit) s)) else None)"
proof -
  define n where "n = length (takeWhile (cmatch digit) s)"
  define f where "f = (\<lambda>k. run [Close 1, One (Lit CHR ''+''), Star AnyChar] (pos + k) (drop k s)
                          (opened(1 \<mapsto> s)) gs)"
  have r: "run tail_items pos s opened gs = first_some f (rev [1 ..< Suc n])"
    by (simp add: tail_items_def f_def n_def)
  have le: "n \<le> length s" unfolding n_def by (rule length_takeWhile_le)
  have small: "f k = None" if "k < n" for k
  proof -
    from that le have kl: "k < length s" by simp
    have "s ! k = takeWhile (cmatch digit) s ! k"
      using that by (simp add: takeWhile_nth n_def)
    moreover have "cmatch digit (takeWhile (cmatch digit) s ! k)"
      using that unfolding n_def by (meson nth_mem set_takeWhileD)
    ultimately have "s ! k \<noteq> CHR ''+''" using not_plus_digit by metis
    moreover have "drop k s = s ! k # drop (Suc k) s" using kl by (simp add: Cons_nth_drop_Suc)
    ultimately show ?thesis using run_after_digits [of k s pos opened gs] kl by (simp add: f_def)
  qed
  have top: "f n = (case dropWhile (cmatch digit) s of
                      [] \<Rightarrow> None
                    | x # xs \<Rightarrow> if x = CHR ''+'' then Some (gs(1 \<mapsto> takeWhile (cmatch digit) s))
                               else None)"
  proof -
    have dw: "drop n s = dropWhile (cmatch digit) s"
      unfolding n_def by (rule dropWhile_eq_drop [symmetric])
    have tw: "take n s = takeWhile (cmatch digit) s"
      unfolding n_def by (rule takeWhile_eq_take [symmetric])
    show ?thesis using run_after_digits [OF le, of pos opened gs] by (simp only: dw tw f_def)
  qed
  show ?thesis
  proof (cases "takeWhile (cmatch digit) s")
    case Nil
    then show ?thesis using r by (simp add: n_def)
  next
    case (Cons d ds)
    then have n: "n = Suc (length ds)" by (simp add: n_def)
    have l: "rev [1 ..< Suc n] = n # rev [1 ..< n]" unfolding n by simp
    have "\<forall>k\<in>set (rev [1 ..< n]). f k = None" using small by simp
    then have rest: "first_some f (rev [1 ..< n]) = None" by (simp only: first_some_None)
    have "first_some f (n # rev [1 ..< n]) = f n" using rest by (rule first_some_head)
    then have e: "run tail_items pos s opened gs = f n" unfolding r l .
    have ne: "takeWhile (cmatch digit) s \<noteq> []" using Cons by simp
    show ?thesis
    proof (cases "dropWhile (cmatch digit) s")
      case Nil
      have "f n = None" unfolding top Nil by simp
      moreover have "\<not> (\<exists>rest. dropWhile (cmatch digit) s = CHR ''+'' # rest)"
        unfolding Nil by simp
      ultimately show ?thesis unfolding e by (simp only: if_False simp_thms)
    next
      case (Cons x xs)
      show ?thesis
      proof (cases "x = CHR ''+''")
        case True
        have "f n = Some (gs(1 \<mapsto> takeWhile (cmatch digit) s))"
          unfolding top Cons using True by simp
        moreover have "\<exists>rest. dropWhile (cmatch digit) s = CHR ''+'' # rest"
          unfolding Cons using True by simp
        ultimately show ?thesis unfolding e using ne by (simp only: if_True simp_thms)
      next
        case False
        have "f n = None" unfolding top Cons using False by simp
        moreover have "\<not> (\<exists>rest. dropWhile (cmatch digit) s = CHR ''+'' # rest)"
          unfolding Cons using False by simp
        ultimately show ?thesis unfolding e by (simp only: if_False simp_thms)
      qed
    qed
  qed
qed

lemma search_bol:
  assumes p: "parse 1 [] p = Some (Bol # r)"
  shows "search p s = Inr (run r 0 s Map.empty Map.empty)"
proof -
  let ?f = "\<lambda>i. run (Bol # r) i (drop i s) Map.empty Map.empty"
  have l: "[0 ..< Suc (length s)] = 0 # [1 ..< Suc (length s)]" by (simp add: upt_rec)
  have "\<forall>k\<in>set [1 ..< Suc (length s)]. ?f k = None" by auto
  then have "first_some ?f [1 ..< Suc (length s)] = None" by (simp only: first_some_None)
  then have "first_some ?f (0 # [1 ..< Suc (length s)]) = ?f 0" by (rule first_some_head)
  then have "first_some ?f [0 ..< Suc (length s)] = run r 0 s Map.empty Map.empty"
    unfolding l by simp
  then show ?thesis using p by (simp add: search_def)
qed

lemma search_accept_regex:
  assumes "\<forall>c\<in>set P. \<not> special c"
  shows "search (self_accept_regex (init inner P L)) h =
           Inr (if take (length (head P)) h = head P
                   \<and> takeWhile (cmatch digit) (drop (length (head P)) h) \<noteq> []
                   \<and> (\<exists>rest. dropWhile (cmatch digit) (drop (length (head P)) h) = CHR ''+'' # rest)
                then Some [1 \<mapsto> takeWhile (cmatch digit) (drop (length (head P)) h)] else None)"
proof -
  have "parse 1 [] (self_accept_regex (init inner P L)) = Some (Bol # lits (head P) @ tail_items)"
    unfolding head_def by (rule parse_accept_regex [OF assms])
  then have "search (self_accept_regex (init inner P L)) h
               = Inr (run (lits (head P) @ tail_items) 0 h Map.empty Map.empty)"
    by (rule search_bol)
  then show ?thesis unfolding run_lits run_tail_items by (simp cong: if_cong)
qed

subsection \<open>The headers that match\<close>

lemma digit_codes:
  "(n::nat) \<ge> 48 \<Longrightarrow> n \<le> 57 \<Longrightarrow> n \<in> {48, 49, 50, 51, 52, 53, 54, 55, 56, 57}"
  by (simp; arith)

lemma digit_chars: "char_of ` {48 :: nat, 49, 50, 51, 52, 53, 54, 55, 56, 57} = set ''0123456789''"
  by code_simp

lemma cmatch_digit: "cmatch digit c \<longleftrightarrow> c \<in> set ''0123456789''"
proof
  assume "cmatch digit c"
  then have "48 \<le> (of_char c :: nat)" "(of_char c :: nat) \<le> 57" by (simp_all add: digit_def)
  then have "(of_char c :: nat) \<in> {48, 49, 50, 51, 52, 53, 54, 55, 56, 57}" by (rule digit_codes)
  then have "char_of (of_char c :: nat) \<in> char_of ` {48 :: nat, 49, 50, 51, 52, 53, 54, 55, 56, 57}"
    by (rule imageI)
  then have "char_of (of_char c :: nat) \<in> set ''0123456789''" by (simp only: digit_chars)
  then show "c \<in> set ''0123456789''" by (simp only: char_of_char)
next
  assume "c \<in> set ''0123456789''"
  then show "cmatch digit c" by (auto simp: digit_def)
qed

lemma head_form_iff:
  "(\<exists>N rest. N \<noteq> [] \<and> set N \<subseteq> set ''0123456789'' \<and> h = pre @ N @ ''+'' @ rest)
     \<longleftrightarrow> take (length pre) h = pre
          \<and> takeWhile (cmatch digit) (drop (length pre) h) \<noteq> []
          \<and> (\<exists>rest. dropWhile (cmatch digit) (drop (length pre) h) = CHR ''+'' # rest)"
  (is "?L \<longleftrightarrow> ?R")
proof
  assume ?L
  then obtain N rest where N: "N \<noteq> []" and dN: "set N \<subseteq> set ''0123456789''"
    and h: "h = pre @ N @ ''+'' @ rest" by blast
  have d: "\<And>c. c \<in> set N \<Longrightarrow> cmatch digit c" using dN cmatch_digit by blast
  have np: "\<not> cmatch digit CHR ''+''" by (simp add: digit_def)
  have t: "takeWhile (cmatch digit) (N @ CHR ''+'' # rest) = N"
    using d np by (simp add: takeWhile_append2)
  have dr: "dropWhile (cmatch digit) (N @ CHR ''+'' # rest) = CHR ''+'' # rest"
    using d np by (simp add: dropWhile_append2)
  have a: "take (length pre) h = pre" unfolding h by simp
  have b: "drop (length pre) h = N @ CHR ''+'' # rest" unfolding h by simp
  show ?R unfolding b t dr using a N by blast
next
  assume r: ?R
  define t where "t = drop (length pre) h"
  from r have p: "take (length pre) h = pre" by blast
  from r obtain rest where rest: "dropWhile (cmatch digit) t = CHR ''+'' # rest"
    unfolding t_def by blast
  from r have ne: "takeWhile (cmatch digit) t \<noteq> []" unfolding t_def by blast
  have "h = take (length pre) h @ t" unfolding t_def by (rule append_take_drop_id [symmetric])
  then have "h = pre @ t" unfolding p .
  moreover have "t = takeWhile (cmatch digit) t @ dropWhile (cmatch digit) t"
    by (rule takeWhile_dropWhile_id [symmetric])
  ultimately have "h = pre @ takeWhile (cmatch digit) t @ ''+'' @ rest"
    unfolding rest by simp
  moreover have "set (takeWhile (cmatch digit) t) \<subseteq> set ''0123456789''"
  proof
    fix c assume "c \<in> set (takeWhile (cmatch digit) t)"
    then have "cmatch digit c" by (rule set_takeWhileD [THEN conjunct2])
    then show "c \<in> set ''0123456789''" by (simp only: cmatch_digit)
  qed
  ultimately show ?L using ne by blast
qed

lemma search_plain_match:
  assumes "\<forall>c\<in>set P. \<not> special c" and "N \<noteq> []" and "set N \<subseteq> set ''0123456789''"
  shows "search (self_accept_regex (init inner P L)) (''application/vnd.'' @ P @ ''.v'' @ N @ ''+'' @ rest)
           = Inr (Some [1 \<mapsto> N])"
proof -
  let ?h = "head P @ N @ ''+'' @ rest"
  have d: "\<forall>c\<in>set N. cmatch digit c" using assms(3) cmatch_digit by blast
  have np: "\<not> cmatch digit CHR ''+''" by (simp add: digit_def)
  have t: "takeWhile (cmatch digit) (N @ CHR ''+'' # rest) = N"
    using d np by (simp add: takeWhile_append2)
  have dr: "dropWhile (cmatch digit) (N @ CHR ''+'' # rest) = CHR ''+'' # rest"
    using d np by (simp add: dropWhile_append2)
  have "search (self_accept_regex (init inner P L)) ?h = Inr (Some [1 \<mapsto> N])"
    unfolding search_accept_regex [OF assms(1)] using assms(2) t dr by simp
  then show ?thesis by (simp add: head_def)
qed

lemma search_plain_no_match:
  assumes "\<forall>c\<in>set P. \<not> special c"
    and "\<not> (\<exists>N rest. N \<noteq> [] \<and> set N \<subseteq> set ''0123456789''
              \<and> h = ''application/vnd.'' @ P @ ''.v'' @ N @ ''+'' @ rest)"
  shows "search (self_accept_regex (init inner P L)) h = Inr None"
proof -
  have "\<not> (\<exists>N rest. N \<noteq> [] \<and> set N \<subseteq> set ''0123456789'' \<and> h = head P @ N @ ''+'' @ rest)"
    using assms(2) by (simp add: head_def)
  then have "\<not> (take (length (head P)) h = head P
          \<and> takeWhile (cmatch digit) (drop (length (head P)) h) \<noteq> []
          \<and> (\<exists>rest. dropWhile (cmatch digit) (drop (length (head P)) h) = CHR ''+'' # rest))"
    unfolding head_form_iff .
  then show ?thesis unfolding search_accept_regex [OF assms(1)] by (simp only: if_False)
qed

section \<open>Unfolding the middleware\<close>

lemma init_fields:
  "self_latest_version (init inner p l) = l"
  "self_app (init inner p l) = inner"
  by (simp_all add: init_def)

lemma extract_version_absent:
  assumes "scope_type scope \<in> {''http'', ''websocket''}"
    and "dict (headers scope) ''accept'' = None"
  shows "extract_version self scope =
           Inr (scope\<lparr> latest_version := Some (self_latest_version self),
                       requested_version := Some (self_latest_version self) \<rparr>)"
  using assms by (simp add: extract_version_def)

lemma extract_version_no_match:
  assumes "scope_type scope \<in> {''http'', ''websocket''}"
    and "dict (headers scope) ''accept'' = Some h"
    and "search (self_accept_regex self) h = Inr None"
  shows "extract_version self scope =
           Inr (scope\<lparr> latest_version := Some (self_latest_version self),
                       requested_version := Some (self_latest_version self) \<rparr>)"
  using assms by (simp add: extract_version_def decode_latin1_def)

lemma extract_version_match:
  assumes "scope_type scope \<in> {''http'', ''websocket''}"
    and "dict (headers scope) ''accept'' = Some h"
    and "search (self_accept_regex self) h = Inr (Some m)"
    and "m 1 = Some v"
  shows "extract_version self scope =
           Inr (scope\<lparr> latest_version := Some (self_latest_version self),
                       requested_version := Some v \<rparr>)"
  using assms by (simp add: extract_version_def decode_latin1_def)

lemma get_foo_fields:
  "scope_type (get_foo hs) \<in> {''http'', ''websocket''}"
  "headers (get_foo hs) = hs"
  by (simp_all add: get_foo_def)

lemma extract_version_plain_prefix:
  assumes "\<forall>c\<in>set P. \<not> special c"
    and "scope_type scope \<in> {''http'', ''websocket''}"
    and "dict (headers scope) ''accept'' = Some (''application/vnd.'' @ P @ ''.v'' @ N @ ''+'' @ suffix)"
    and "N \<noteq> []" and "set N \<subseteq> set ''0123456789''"
  shows "extract_version (init inner P L) scope =
           Inr (scope\<lparr> latest_version := Some L, requested_version := Some N \<rparr>)"
proof -
  have m: "[1 \<mapsto> N] 1 = Some N" by simp
  show ?thesis
    using extract_version_match
            [OF assms(2) assms(3) search_plain_match [OF assms(1) assms(4) assms(5)] m]
    by (simp only: init_fields)
qed

subsection \<open>The fallback to the latest version\<close>

text \<open>
  On an HTTP or WebSocket scope without Accept header, and on one whose Accept header
  the pattern of the middleware does not match, the middleware raises nothing and
  leaves the requested version equal to the latest version, whatever the pattern is
  (first and second part). For a prefix without special characters, the headers that
  the pattern does not match are exactly those not of the form
  \<^verbatim>\<open>application/vnd.P.vN+suffix\<close> with \<open>N\<close> a non-empty string of decimal digits: a
  wrong prefix, missing digits or a missing \<^verbatim>\<open>+\<close> all end in the fallback (third
  part).
\<close>

lemma silent_fallback:
  assumes "scope_type scope \<in> {''http'', ''websocket''}"
  shows "(dict (headers scope) ''accept'' = None \<longrightarrow>
            extract_version self scope =
              Inr (scope\<lparr> latest_version := Some (self_latest_version self),
                          requested_version := Some (self_latest_version self) \<rparr>))
         \<and> (\<forall>h. dict (headers scope) ''accept'' = Some h
                \<and> search (self_accept_regex self) (decode_latin1 h) = Inr None \<longrightarrow>
              extract_version self scope =
                Inr (scope\<lparr> latest_version := Some (self_latest_version self),
                            requested_version := Some (self_latest_version self) \<rparr>))
         \<and> (\<forall>h P inner L. dict (headers scope) ''accept'' = Some h
                \<and> (\<forall>c\<in>set P. \<not> special c)
                \<and> \<not> (\<exists>N rest. N \<noteq> [] \<and> set N \<subseteq> set ''0123456789''
                        \<and> h = ''application/vnd.'' @ P @ ''.v'' @ N @ ''+'' @ rest) \<longrightarrow>
              extract_version (init inner P L) scope =
                Inr (scope\<lparr> latest_version := Some L, requested_version := Some L \<rparr>))"
proof (intro conjI allI impI)
  assume "dict (headers scope) ''accept'' = None"
  then show "extract_version self scope =
      Inr (scope\<lparr> latest_version := Some (self_latest_version self),
                  requested_version := Some (self_latest_version self) \<rparr>)"
    using assms by (rule extract_version_absent [rotated])
next
  fix h
  assume "dict (headers scope) ''accept'' = Some h
            \<and> search (self_accept_regex self) (decode_latin1 h) = Inr None"
  then have d: "dict (headers scope) ''accept'' = Some h"
    and s: "search (self_accept_regex self) h = Inr None"
    by (simp_all add: decode_latin1_def)
  show "extract_version self scope =
      Inr (scope\<lparr> latest_version := Some (self_latest_version self),
                  requested_version := Some (self_latest_version self) \<rparr>)"
    using assms d s by (rule extract_version_no_match)
next
  fix h P and inner :: "scope \<Rightarrow> error + 'b" and L
  assume a: "dict (headers scope) ''accept'' = Some h
            \<and> (\<forall>c\<in>set P. \<not> special c)
            \<and> \<not> (\<exists>N rest. N \<noteq> [] \<and> set N \<subseteq> set ''0123456789''
                    \<and> h = ''application/vnd.'' @ P @ ''.v'' @ N @ ''+'' @ rest)"
  then have d: "dict (headers scope) ''accept'' = Some h" by blast
  from a have p: "\<forall>c\<in>set P. \<not> special c" by blast
  from a have n: "\<not> (\<exists>N rest. N \<noteq> [] \<and> set N \<subseteq> set ''0123456789''
                    \<and> h = ''application/vnd.'' @ P @ ''.v'' @ N @ ''+'' @ rest)" by blast
  have s: "search (self_accept_regex (init inner P L)) h = Inr None"
    using p n by (rule search_plain_no_match)
  show "extract_version (init inner P L) scope =
      Inr (scope\<lparr> latest_version := Some L, requested_version := Some L \<rparr>)"
    using extract_version_no_match [OF assms d s] by (simp only: init_fields)
qed

lemma silent_fallback_instances:
  "scope_type (get_foo []) \<in> {''http'', ''websocket''}
   \<and> extract_version (init (dispatch (fst router) (snd router) None) ''mytestapp'' ''4'') (get_foo [])
       = Inr ((get_foo [])\<lparr> latest_version := Some ''4'', requested_version := Some ''4'' \<rparr>)
   \<and> extract_version (init (dispatch (fst router) (snd router) None) ''mytestapp'' ''4'')
         (get_foo [(''accept'', ''application/vnd.mytestapp.v+json'')])
       = Inr ((get_foo [(''accept'', ''application/vnd.mytestapp.v+json'')])
                \<lparr> latest_version := Some ''4'', requested_version := Some ''4'' \<rparr>)
   \<and> extract_version (init (dispatch (fst router) (snd router) None) ''mytestapp'' ''4'')
         (get_foo [(''accept'', ''application/vnd.mytestapp.v1'')])
       = Inr ((get_foo [(''accept'', ''application/vnd.mytestapp.v1'')])
                \<lparr> latest_version := Some ''4'', requested_version := Some ''4'' \<rparr>)
   \<and> extract_version (init (dispatch (fst router) (snd router) None) ''mytestapp'' ''4'')
         (get_foo [(''accept'', ''application/vnd.other.v1+json'')])
       = Inr ((get_foo [(''accept'', ''application/vnd.other.v1+json'')])
                \<lparr> latest_version := Some ''4'', requested_version := Some ''4'' \<rparr>)"
proof -
  let ?mw = "init (dispatch (fst router) (snd router) None) ''mytestapp'' ''4''"
  have t: "\<And>hs. scope_type (get_foo hs) \<in> {''http'', ''websocket''}"
    by (simp add: get_foo_def)
  have absent: "dict (headers (get_foo [])) ''accept'' = None"
    by (simp add: dict_def get_foo_def)
  have a: "extract_version ?mw (get_foo [])
             = Inr ((get_foo [])\<lparr> latest_version := Some ''4'', requested_version := Some ''4'' \<rparr>)"
    using silent_fallback [OF t, of "[]" ?mw, THEN conjunct1, rule_format, OF absent]
    by (simp only: init_fields)
  have "case search (self_accept_regex ?mw) ''application/vnd.mytestapp.v+json'' of
          Inr None \<Rightarrow> True | _ \<Rightarrow> False"
    by code_simp
  then have sb: "search (self_accept_regex ?mw) (decode_latin1 ''application/vnd.mytestapp.v+json'')
                    = Inr None"
    unfolding decode_latin1_def by (simp split: sum.splits option.splits)
  have db: "dict (headers (get_foo [(''accept'', ''application/vnd.mytestapp.v+json'')])) ''accept''
              = Some ''application/vnd.mytestapp.v+json''"
    by (simp add: dict_def get_foo_def)
  have b: "extract_version ?mw (get_foo [(''accept'', ''application/vnd.mytestapp.v+json'')])
             = Inr ((get_foo [(''accept'', ''application/vnd.mytestapp.v+json'')])
                      \<lparr> latest_version := Some ''4'', requested_version := Some ''4'' \<rparr>)"
    using silent_fallback [OF t, of "[(''accept'', ''application/vnd.mytestapp.v+json'')]" ?mw,
            THEN conjunct2, THEN conjunct1, rule_format, OF conjI [OF db sb]]
    by (simp only: init_fields)
  have "case search (self_accept_regex ?mw) ''application/vnd.mytestapp.v1'' of
          Inr None \<Rightarrow> True | _ \<Rightarrow> False"
    by code_simp
  then have sc: "search (self_accept_regex ?mw) (decode_latin1 ''application/vnd.mytestapp.v1'')
                    = Inr None"
    unfolding decode_latin1_def by (simp split: sum.splits option.splits)
  have dc: "dict (headers (get_foo [(''accept'', ''application/vnd.mytestapp.v1'')])) ''accept''
              = Some ''application/vnd.mytestapp.v1''"
    by (simp add: dict_def get_foo_def)
  have c: "extract_version ?mw (get_foo [(''accept'', ''application/vnd.mytestapp.v1'')])
             = Inr ((get_foo [(''accept'', ''application/vnd.mytestapp.v1'')])
                      \<lparr> latest_version := Some ''4'', requested_version := Some ''4'' \<rparr>)"
    using silent_fallback [OF t, of "[(''accept'', ''application/vnd.mytestapp.v1'')]" ?mw,
            THEN conjunct2, THEN conjunct1, rule_format, OF conjI [OF dc sc]]
    by (simp only: init_fields)
  have dd: "dict (headers (get_foo [(''accept'', ''application/vnd.other.v1+json'')])) ''accept''
              = Some ''application/vnd.other.v1+json''"
    by (simp add: dict_def get_foo_def)
  have plain: "\<forall>c\<in>set ''mytestapp''. \<not> special c"
    by (simp add: special_def backslash_def)
  have nf: "\<not> (\<exists>N rest. N \<noteq> [] \<and> set N \<subseteq> set ''0123456789''
                \<and> ''application/vnd.other.v1+json''
                    = ''application/vnd.'' @ ''mytestapp'' @ ''.v'' @ N @ ''+'' @ rest)"
    by simp
  have d: "extract_version ?mw (get_foo [(''accept'', ''application/vnd.other.v1+json'')])
             = Inr ((get_foo [(''accept'', ''application/vnd.other.v1+json'')])
                      \<lparr> latest_version := Some ''4'', requested_version := Some ''4'' \<rparr>)"
    using silent_fallback [OF t, of "[(''accept'', ''application/vnd.other.v1+json'')]" ?mw,
            THEN conjunct2, THEN conjunct2, rule_format, OF conjI [OF dd conjI [OF plain nf]]]
    .
  from t [of "[]"] a b c d show ?thesis by (intro conjI)
qed

section \<open>The claims\<close>

subsection \<open>C1: a mismatched version at the top level\<close>

text \<open>
  Claim C1: for every request whose path matches a route but whose requested version
  does not satisfy the route's matching rule, \<open>handle\<close> emits or raises the 406 outcome
  and the handler body is never executed. The source does not do this when the scope
  has no \<^verbatim>\<open>"app"\<close> key: after the plain-text 406 response is sent, control falls
  through to \<^verbatim>\<open>super().handle\<close>, which runs the endpoint. The theorem evaluates
  \<open>handle\<close> for the route of \<^verbatim>\<open>foo_v1\<close> (tagged \<^verbatim>\<open>"1"\<close>) on a scope without
  \<^verbatim>\<open>"app"\<close> that requests version 9 while the latest version is 4.
\<close>

theorem handle_top_level_mismatch_runs_endpoint:
  "handle (fst router) (get_route ''/foo'' foo_v1)
     ((get_foo [])\<lparr> requested_version := Some ''9'', latest_version := Some ''4'' \<rparr>)
   = Inr [Sent (PlainTextResponse ''Not Acceptable'' 406), SuperHandle foo_v1]"
  by (simp add: handle_def is_version_matching_def endpoint_version_def router_def register_def
        version_def get_route_def get_foo_def foo_v1_def foo_v2_def foo_v3_def foo_latest_def)

subsection \<open>C2: the matching rule\<close>

text \<open>
  Claim C2: when the inherited path matching gives anything but a full match, \<open>matches\<close>
  returns that result unchanged, with the child scope, and the version of the route
  is not looked at (this part needs no tag and no version in the scope). For a route
  whose endpoint is tagged \<open>V\<close> and a scope that carries the requested and the latest
  version, \<open>is_version_matching\<close> is true iff (\<open>V\<close> is \<^verbatim>\<open>"latest"\<close> and the requested
  version equals the latest version) or \<open>V\<close> equals the requested version, as strings;
  and when the path matching gives a full match, \<open>matches\<close> returns a full match if
  this rule holds and a partial match if it does not.
\<close>

theorem matches_version_rule:
  assumes "super_matches self scope = (pm, child)"
  shows "(pm \<noteq> FULL \<longrightarrow> matches ts self scope = Inr (pm, child))
         \<and> (\<forall>V requested latest.
               ts (endpoint self) = Some V \<and> requested_version scope = Some requested
               \<and> latest_version scope = Some latest \<longrightarrow>
               is_version_matching ts self scope =
                 Inr ((V = ''latest'' \<and> requested = latest) \<or> V = requested)
               \<and> (pm = FULL \<longrightarrow>
                    matches ts self scope =
                      Inr (if (V = ''latest'' \<and> requested = latest) \<or> V = requested
                           then FULL else PARTIAL, child)))"
proof (intro conjI allI impI)
  assume "pm \<noteq> FULL"
  then show "matches ts self scope = Inr (pm, child)"
    using assms by (cases pm) (simp_all add: matches_def)
next
  fix V requested latest
  assume a: "ts (endpoint self) = Some V \<and> requested_version scope = Some requested
               \<and> latest_version scope = Some latest"
  then show m: "is_version_matching ts self scope =
             Inr ((V = ''latest'' \<and> requested = latest) \<or> V = requested)"
    by (auto simp: is_version_matching_def endpoint_version_def)
  assume "pm = FULL"
  then show "matches ts self scope =
                Inr (if (V = ''latest'' \<and> requested = latest) \<or> V = requested
                     then FULL else PARTIAL, child)"
    using assms m by (simp add: matches_def)
qed

theorem matches_version_rule_witness:
  "matches (fst router) (get_route ''/foo'' foo_latest)
      ((get_foo [])\<lparr> requested_version := Some ''4'', latest_version := Some ''4'' \<rparr>)
       = Inr (FULL, [(''endpoint'', Function foo_latest), (''path_params'', Dict []),
          (''route'', RouteOf foo_latest)])
   \<and> matches (fst router) (get_route ''/foo'' foo_v2)
      ((get_foo [])\<lparr> requested_version := Some ''4'', latest_version := Some ''4'' \<rparr>)
       = Inr (PARTIAL, [(''endpoint'', Function foo_v2), (''path_params'', Dict []),
          (''route'', RouteOf foo_v2)])
   \<and> matches (fst router) (get_route ''/foo'' foo_v2)
      ((get_foo [])\<lparr> path := ''/bar'', requested_version := Some ''2'',
                     latest_version := Some ''4'' \<rparr>)
       = Inr (NONE, [])"
proof -
  let ?s = "(get_foo [])\<lparr> requested_version := Some ''4'', latest_version := Some ''4'' \<rparr>"
  let ?b = "(get_foo [])\<lparr> path := ''/bar'', requested_version := Some ''2'',
                           latest_version := Some ''4'' \<rparr>"
  have tl: "fst router (endpoint (get_route ''/foo'' foo_latest)) = Some ''latest''"
    by (simp add: router_def register_def version_def get_route_def)
  have t2: "fst router (endpoint (get_route ''/foo'' foo_v2)) = Some ''2''"
    by (simp add: router_def register_def version_def get_route_def
          foo_v1_def foo_v2_def foo_v3_def foo_latest_def)
  have r: "requested_version ?s = Some ''4''" and l: "latest_version ?s = Some ''4''"
    by simp_all
  have pl: "super_matches (get_route ''/foo'' foo_latest) ?s = (FULL, [(''endpoint'', Function foo_latest), (''path_params'', Dict []),
          (''route'', RouteOf foo_latest)])"
    by (simp add: get_route_def get_foo_def)
  have p2: "super_matches (get_route ''/foo'' foo_v2) ?s = (FULL, [(''endpoint'', Function foo_v2), (''path_params'', Dict []),
          (''route'', RouteOf foo_v2)])"
    by (simp add: get_route_def get_foo_def)
  have pb: "super_matches (get_route ''/foo'' foo_v2) ?b = (NONE, [])"
    by (simp add: get_route_def get_foo_def)
  have nf: "NONE \<noteq> FULL" by simp
  note a = matches_version_rule
      [where ts = "fst router" and self = "get_route ''/foo'' foo_latest" and scope = ?s
         and pm = FULL and child = "[(''endpoint'', Function foo_latest), (''path_params'', Dict []),
          (''route'', RouteOf foo_latest)]", OF pl,
       THEN conjunct2, rule_format, OF conjI [OF tl conjI [OF r l]],
       THEN conjunct2, THEN mp, OF refl]
  note b = matches_version_rule
      [where ts = "fst router" and self = "get_route ''/foo'' foo_v2" and scope = ?s
         and pm = FULL and child = "[(''endpoint'', Function foo_v2), (''path_params'', Dict []),
          (''route'', RouteOf foo_v2)]", OF p2,
       THEN conjunct2, rule_format, OF conjI [OF t2 conjI [OF r l]],
       THEN conjunct2, THEN mp, OF refl]
  note c = matches_version_rule
      [where ts = "fst router" and self = "get_route ''/foo'' foo_v2" and scope = ?b
         and pm = NONE and child = "[]", OF pb, THEN conjunct1, THEN mp, OF nf]
  from a b c show ?thesis by simp
qed

subsection \<open>C3: the application of the module\<close>

text \<open>
  Claim C3: with the handlers of the module registered at \<^verbatim>\<open>/foo\<close> under the versions
  1, 2, 3 and latest, and the latest version 4: a \<^verbatim>\<open>GET /foo\<close> without Accept header,
  or with \<^verbatim>\<open>application/vnd.mytestapp.v4+json\<close>, is handled by the endpoint tagged
  \<^verbatim>\<open>"latest"\<close>; with \<^verbatim>\<open>application/vnd.mytestapp.v2+json\<close> by the endpoint tagged
  \<^verbatim>\<open>"2"\<close>; with \<^verbatim>\<open>application/vnd.mytestapp.v9+json\<close> the outcome is the HTTP
  exception with status 406 and the detail "Requested version 9 does not exist. Latest
  available version is 4." (the framework answers the request from this exception).
\<close>

theorem application_routing:
  "fst router foo_latest = Some ''latest''
   \<and> fst router foo_v2 = Some ''2''
   \<and> application (get_foo []) = Inr [SuperHandle foo_latest]
   \<and> application (get_foo [(''accept'', ''application/vnd.mytestapp.v4+json'')])
       = Inr [SuperHandle foo_latest]
   \<and> application (get_foo [(''accept'', ''application/vnd.mytestapp.v2+json'')])
       = Inr [SuperHandle foo_v2]
   \<and> application (get_foo [(''accept'', ''application/vnd.mytestapp.v9+json'')])
       = Inl (HTTPException 406
                ''Requested version 9 does not exist. Latest available version is 4.'')"
proof -
  have tl: "fst router foo_latest = Some ''latest''"
    by (simp add: router_def register_def version_def)
  have t2: "fst router foo_v2 = Some ''2''"
    by (simp add: router_def register_def version_def
          foo_v1_def foo_v2_def foo_v3_def foo_latest_def)
  have a: "application (get_foo []) = Inr [SuperHandle foo_latest]"
    by code_simp
  have b: "application (get_foo [(''accept'', ''application/vnd.mytestapp.v4+json'')])
             = Inr [SuperHandle foo_latest]"
    by code_simp
  have c: "application (get_foo [(''accept'', ''application/vnd.mytestapp.v2+json'')])
             = Inr [SuperHandle foo_v2]"
    by code_simp
  have d: "application (get_foo [(''accept'', ''application/vnd.mytestapp.v9+json'')])
             = Inl (HTTPException 406
                      ''Requested version 9 does not exist. Latest available version is 4.'')"
    by code_simp
  from tl t2 a b c d show ?thesis by (intro conjI)
qed

subsection \<open>C4: a prefix with a special character\<close>

text \<open>
  Claim C4: for every vendor prefix \<open>P\<close>, every latest version and every non-empty
  string \<open>N\<close> of decimal digits, an Accept header
  \<^verbatim>\<open>application/vnd.P.vN+suffix\<close> sets the requested version to \<open>N\<close>. For a prefix
  without special characters this is the lemma \<open>extract_version_plain_prefix\<close> above.
  The source inserts the prefix into the pattern as it is, so a prefix with a special
  character is read as a pattern: with the prefix \<^verbatim>\<open>a+b\<close> the header
  \<^verbatim>\<open>application/vnd.a+b.v7+json\<close> does not match, and the requested version stays
  the latest version. The theorem evaluates the middleware at this input.
\<close>

theorem prefix_with_plus_falls_back:
  "extract_version (init inner ''a+b'' ''4'')
     (get_foo [(''accept'', ''application/vnd.a+b.v7+json'')])
   = Inr ((get_foo [(''accept'', ''application/vnd.a+b.v7+json'')])
            \<lparr> latest_version := Some ''4'', requested_version := Some ''4'' \<rparr>)"
proof -
  let ?p = "self_accept_regex (init inner ''a+b'' ''4'')"
  have "case search ?p ''application/vnd.a+b.v7+json'' of Inr None \<Rightarrow> True | _ \<Rightarrow> False"
    by code_simp
  then have s: "search ?p ''application/vnd.a+b.v7+json'' = Inr None"
    by (simp split: sum.splits option.splits)
  have d: "dict (headers (get_foo [(''accept'', ''application/vnd.a+b.v7+json'')])) ''accept''
             = Some ''application/vnd.a+b.v7+json''"
    by (simp add: dict_def get_foo_def)
  show ?thesis
    using extract_version_no_match [OF get_foo_fields(1) d s] by (simp only: init_fields)
qed

subsection \<open>C5: a header with a wrong prefix that is not a fallback\<close>

text \<open>
  Claim C5: for every Accept header that does not match the vendor-tree pattern (wrong
  prefix, missing version digits, missing \<^verbatim>\<open>+\<close> and subtype), and for an absent
  Accept header, the requested version is the latest version and no error is raised.
  Without Accept header, and for a prefix without special characters, this is the
  lemma \<open>silent_fallback\<close> above. The source inserts the prefix into the pattern as it
  is, so with a special character in the prefix a header with a wrong prefix can
  match: the prefix \<^verbatim>\<open>acme.api\<close> is read as a pattern whose dot matches any
  character, the header \<^verbatim>\<open>application/vnd.acme-api.v2+json\<close> matches, and the
  requested version becomes 2 where the latest version is 4. The theorem evaluates
  the middleware at this input.
\<close>

theorem wrong_prefix_header_is_extracted:
  "extract_version (init inner ''acme.api'' ''4'')
     (get_foo [(''accept'', ''application/vnd.acme-api.v2+json'')])
   = Inr ((get_foo [(''accept'', ''application/vnd.acme-api.v2+json'')])
            \<lparr> latest_version := Some ''4'', requested_version := Some ''2'' \<rparr>)"
proof -
  let ?p = "self_accept_regex (init inner ''acme.api'' ''4'')"
  have "case search ?p ''application/vnd.acme-api.v2+json'' of
          Inr (Some m) \<Rightarrow> m 1 = Some ''2'' | _ \<Rightarrow> False"
    by code_simp
  then obtain m where s: "search ?p ''application/vnd.acme-api.v2+json'' = Inr (Some m)"
    and m: "m 1 = Some ''2''"
    by (auto split: sum.splits option.splits)
  have d: "dict (headers (get_foo [(''accept'', ''application/vnd.acme-api.v2+json'')])) ''accept''
             = Some ''application/vnd.acme-api.v2+json''"
    by (simp add: dict_def get_foo_def)
  show ?thesis
    using extract_version_match [OF get_foo_fields(1) d s m] by (simp only: init_fields)
qed

subsection \<open>C6: the two forms of the rejection\<close>

text \<open>
  Claim C6: when the version does not match and the scope has an \<^verbatim>\<open>"app"\<close> key (the
  route is used inside an application), \<open>handle\<close> raises the HTTP exception with status
  406 and the detail "Requested version R does not exist. Latest available version is
  L." with the requested and the latest version of the scope in place of R and L; when
  the scope has no \<^verbatim>\<open>"app"\<close> key, \<open>handle\<close> raises nothing and sends the plain-text
  response "Not Acceptable" with status 406 itself. (What it does after sending is
  the subject of C1.)
\<close>

theorem handle_mismatch_outcome:
  assumes "ts (endpoint self) = Some V"
    and "requested_version scope = Some requested"
    and "latest_version scope = Some latest"
    and "\<not> ((V = ''latest'' \<and> requested = latest) \<or> V = requested)"
  shows "(app scope \<noteq> None \<longrightarrow>
            handle ts self scope =
              Inl (HTTPException 406
                     (''Requested version '' @ requested @ '' does not exist. ''
                        @ ''Latest available version is '' @ latest @ ''.'')))
         \<and> (app scope = None \<longrightarrow>
            handle ts self scope =
              Inr [Sent (PlainTextResponse ''Not Acceptable'' 406), SuperHandle (endpoint self)])"
  using assms
  by (auto simp: handle_def is_version_matching_def endpoint_version_def detail_def)

theorem handle_mismatch_outcome_witness:
  "handle (fst router) (get_route ''/foo'' foo_v2)
     ((get_foo [])\<lparr> app := Some app_object, requested_version := Some ''9'',
                    latest_version := Some ''4'' \<rparr>)
     = Inl (HTTPException 406 ''Requested version 9 does not exist. Latest available version is 4.'')
   \<and> handle (fst router) (get_route ''/foo'' foo_v2)
     ((get_foo [])\<lparr> requested_version := Some ''9'', latest_version := Some ''4'' \<rparr>)
     = Inr [Sent (PlainTextResponse ''Not Acceptable'' 406), SuperHandle foo_v2]"
proof -
  let ?r = "get_route ''/foo'' foo_v2"
  let ?nested = "(get_foo [])\<lparr> app := Some app_object, requested_version := Some ''9'',
                                latest_version := Some ''4'' \<rparr>"
  let ?top = "(get_foo [])\<lparr> requested_version := Some ''9'', latest_version := Some ''4'' \<rparr>"
  have t: "fst router (endpoint ?r) = Some ''2''"
    by (simp add: router_def register_def version_def get_route_def
          foo_v1_def foo_v2_def foo_v3_def foo_latest_def)
  have e: "endpoint ?r = foo_v2" by (simp add: get_route_def)
  have mm: "\<not> ((''2'' = ''latest'' \<and> ''9'' = ''4'') \<or> ''2'' = ''9'')" by simp
  have rn: "requested_version ?nested = Some ''9''" and ln: "latest_version ?nested = Some ''4''"
    and an: "app ?nested \<noteq> None" by simp_all
  have rt: "requested_version ?top = Some ''9''" and lt: "latest_version ?top = Some ''4''"
    and at: "app ?top = None" by (simp_all add: get_foo_def)
  note n = handle_mismatch_outcome
             [where ts = "fst router" and self = ?r and scope = ?nested and V = "''2''"
                and requested = "''9''" and latest = "''4''", OF t rn ln mm]
  note p = handle_mismatch_outcome
             [where ts = "fst router" and self = ?r and scope = ?top and V = "''2''"
                and requested = "''9''" and latest = "''4''", OF t rt lt mm]
  from n [THEN conjunct1, rule_format, OF an] p [THEN conjunct2, rule_format, OF at]
  show ?thesis by (simp add: e)
qed

subsection \<open>C7: the prefix is read as a pattern\<close>

text \<open>
  Claim C7: for every vendor prefix, also one with special characters such as
  \<^verbatim>\<open>.\<close> or \<^verbatim>\<open>+\<close>, a header matches iff it literally begins with
  \<^verbatim>\<open>application/vnd.\<close>, the prefix, \<^verbatim>\<open>.v\<close>, decimal digits and \<^verbatim>\<open>+\<close>. The source
  does not escape the prefix: with the prefix \<^verbatim>\<open>my.app\<close> the dot matches any
  character, so the header \<^verbatim>\<open>application/vnd.myXapp.v1+json\<close>, which does not begin
  with \<^verbatim>\<open>application/vnd.my.app.v\<close>, matches and sets the requested version to 1.
  The theorem evaluates the middleware at this input.
\<close>

theorem prefix_dot_matches_other_text:
  "extract_version (init inner ''my.app'' ''4'')
     (get_foo [(''accept'', ''application/vnd.myXapp.v1+json'')])
   = Inr ((get_foo [(''accept'', ''application/vnd.myXapp.v1+json'')])
            \<lparr> latest_version := Some ''4'', requested_version := Some ''1'' \<rparr>)"
proof -
  let ?p = "self_accept_regex (init inner ''my.app'' ''4'')"
  have "case search ?p ''application/vnd.myXapp.v1+json'' of
          Inr (Some m) \<Rightarrow> m 1 = Some ''1'' | _ \<Rightarrow> False"
    by code_simp
  then obtain m where s: "search ?p ''application/vnd.myXapp.v1+json'' = Inr (Some m)"
    and m: "m 1 = Some ''1''"
    by (auto split: sum.splits option.splits)
  have d: "dict (headers (get_foo [(''accept'', ''application/vnd.myXapp.v1+json'')])) ''accept''
             = Some ''application/vnd.myXapp.v1+json''"
    by (simp add: dict_def get_foo_def)
  show ?thesis
    using extract_version_match [OF get_foo_fields(1) d s m] by (simp only: init_fields)
qed

subsection \<open>C8: version tags\<close>

text \<open>
  Claim C8, as stated: the tag observed by \<open>endpoint_version\<close> is the token given at
  registration on every later query, and later changes of the tag are not observable
  in routing decisions. The tag is an attribute of the handler function, read again at
  every query, and the decorator overwrites it: \<^verbatim>\<open>foo_v1\<close> is registered by the
  module with the tag \<^verbatim>\<open>"1"\<close>; once the decorator has tagged it \<^verbatim>\<open>"2"\<close>, its route
  reports \<^verbatim>\<open>"2"\<close>, and a request for version 1, which matched before, no longer
  matches.
\<close>

theorem retag_is_observed:
  "endpoint_version (fst router) (get_route ''/foo'' foo_v1) = Inr ''1''
   \<and> endpoint_version (snd (version ''2'' foo_v1 (fst router))) (get_route ''/foo'' foo_v1)
       = Inr ''2''
   \<and> is_version_matching (fst router) (get_route ''/foo'' foo_v1)
       ((get_foo [])\<lparr> requested_version := Some ''1'', latest_version := Some ''4'' \<rparr>)
       = Inr True
   \<and> is_version_matching (snd (version ''2'' foo_v1 (fst router))) (get_route ''/foo'' foo_v1)
       ((get_foo [])\<lparr> requested_version := Some ''1'', latest_version := Some ''4'' \<rparr>)
       = Inr False"
  by (simp add: endpoint_version_def is_version_matching_def version_def get_route_def
        router_def register_def foo_v1_def foo_v2_def foo_v3_def foo_latest_def)

text \<open>
  Claim C8, as amended: \<open>endpoint_version\<close> returns the token that the version
  decorator wrote last to the route's handler. It is the token given at registration
  on every query as long as the handler is not tagged again: a query changes nothing,
  and tagging another handler does not change it. Tagging the handler again replaces
  the tag, and the new token is what the router observes.
\<close>

theorem endpoint_version_last_tag:
  assumes "endpoint self = f"
  shows "endpoint_version (snd (version v f ts)) self = Inr v
         \<and> (g \<noteq> f \<longrightarrow> endpoint_version (snd (version w g (snd (version v f ts)))) self = Inr v)
         \<and> endpoint_version (snd (version w f (snd (version v f ts)))) self = Inr w"
  using assms by (simp add: endpoint_version_def version_def)

theorem endpoint_version_last_tag_witness:
  "endpoint_version (snd (version ''1'' foo_v1 Map.empty)) (get_route ''/foo'' foo_v1) = Inr ''1''
   \<and> endpoint_version (snd (version ''2'' foo_v2 (snd (version ''1'' foo_v1 Map.empty))))
        (get_route ''/foo'' foo_v1) = Inr ''1''
   \<and> endpoint_version (snd (version ''3'' foo_v1 (snd (version ''1'' foo_v1 Map.empty))))
        (get_route ''/foo'' foo_v1) = Inr ''3''"
proof -
  have e: "endpoint (get_route ''/foo'' foo_v1) = foo_v1" by (simp add: get_route_def)
  have d: "foo_v2 \<noteq> foo_v1" by (simp add: foo_v1_def foo_v2_def)
  from endpoint_version_last_tag [OF e, of "''1''" Map.empty foo_v2 "''2''"] d
       endpoint_version_last_tag [OF e, of "''1''" Map.empty foo_v2 "''3''"]
  show ?thesis by simp
qed

subsection \<open>C9: what the middleware changes\<close>

text \<open>
  Claim C9: on an HTTP or WebSocket scope the middleware changes the two fields
  \<^verbatim>\<open>latest_version\<close> and \<^verbatim>\<open>requested_version\<close> and nothing else: the scope it hands
  to the inner application is the given one with \<^verbatim>\<open>latest_version\<close> set to the
  configured value and \<^verbatim>\<open>requested_version\<close> set to some value (unless the pattern
  is outside the modelled fragment, which cannot happen for a pattern that parses). On
  a scope of any other type it hands the given scope to the inner application
  unchanged, so that scope receives neither field.
\<close>

theorem extract_version_frame:
  "(scope_type scope \<in> {''http'', ''websocket''} \<longrightarrow>
      (extract_version self scope = Inl ReUnmodelled
       \<or> (\<exists>v. extract_version self scope =
                Inr (scope\<lparr> latest_version := Some (self_latest_version self),
                            requested_version := Some v \<rparr>)
              \<and> call self scope =
                  self_app self (scope\<lparr> latest_version := Some (self_latest_version self),
                                        requested_version := Some v \<rparr>)))
      \<and> (parse 1 [] (self_accept_regex self) \<noteq> None \<longrightarrow>
           extract_version self scope \<noteq> Inl ReUnmodelled))
   \<and> (scope_type scope \<notin> {''http'', ''websocket''} \<longrightarrow>
        extract_version self scope = Inr scope \<and> call self scope = self_app self scope)"
  by (auto simp: extract_version_def call_def search_def Let_def
           split: option.splits sum.splits)

theorem extract_version_frame_witness:
  "scope_type (get_foo [(''accept'', ''application/vnd.mytestapp.v2+json'')])
      \<in> {''http'', ''websocket''}
   \<and> extract_version (init (dispatch (fst router) (snd router) None) ''mytestapp'' ''4'')
        (get_foo [(''accept'', ''application/vnd.mytestapp.v2+json'')]) \<noteq> Inl ReUnmodelled
   \<and> (\<exists>v. extract_version (init (dispatch (fst router) (snd router) None) ''mytestapp'' ''4'')
             (get_foo [(''accept'', ''application/vnd.mytestapp.v2+json'')])
           = Inr ((get_foo [(''accept'', ''application/vnd.mytestapp.v2+json'')])
                    \<lparr> latest_version := Some ''4'', requested_version := Some v \<rparr>))
   \<and> scope_type ((get_foo [])\<lparr> scope_type := ''lifespan'' \<rparr>) \<notin> {''http'', ''websocket''}
   \<and> extract_version (init (dispatch (fst router) (snd router) None) ''mytestapp'' ''4'')
        ((get_foo [])\<lparr> scope_type := ''lifespan'' \<rparr>)
       = Inr ((get_foo [])\<lparr> scope_type := ''lifespan'' \<rparr>)"
proof -
  let ?mw = "init (dispatch (fst router) (snd router) None) ''mytestapp'' ''4''"
  let ?s = "get_foo [(''accept'', ''application/vnd.mytestapp.v2+json'')]"
  let ?l = "(get_foo [])\<lparr> scope_type := ''lifespan'' \<rparr>"
  have t: "scope_type ?s \<in> {''http'', ''websocket''}" by (simp add: get_foo_def)
  have plain: "\<forall>c\<in>set ''mytestapp''. \<not> special c"
    by (simp add: special_def backslash_def)
  have pr: "parse 1 [] (self_accept_regex ?mw) \<noteq> None"
    unfolding parse_accept_regex [OF plain] by (rule option.distinct(2))
  note f = extract_version_frame [of ?s ?mw, THEN conjunct1, THEN mp, OF t]
  from f [THEN conjunct2, THEN mp, OF pr]
  have ok: "extract_version ?mw ?s \<noteq> Inl ReUnmodelled" .
  from f [THEN conjunct1] ok
  have e: "\<exists>v. extract_version ?mw ?s
              = Inr (?s\<lparr> latest_version := Some ''4'', requested_version := Some v \<rparr>)"
    by (auto simp only: init_fields)
  have nt: "scope_type ?l \<notin> {''http'', ''websocket''}" by simp
  from extract_version_frame [of ?l ?mw, THEN conjunct2, THEN mp, OF nt]
  have l: "extract_version ?mw ?l = Inr ?l" by blast
  from t ok e nt l show ?thesis by (intro conjI)
qed

subsection \<open>C10: a handler without a tag\<close>

text \<open>
  Claim C10: for a route whose endpoint was never tagged, reading \<open>endpoint_version\<close>
  fails with an attribute error instead of returning a default, and so does every use
  of the route that reads it: \<open>is_version_matching\<close> never returns a value, and on a
  scope that carries the requested version (which is looked up first) it fails with
  the attribute error, as do \<open>handle\<close> and, when the path matches fully, \<open>matches\<close>.
\<close>

theorem untagged_endpoint_fails:
  assumes "ts (endpoint self) = None"
  shows "endpoint_version ts self = Inl (AttributeError ''__api_version__'')
         \<and> (\<forall>scope. \<exists>e. is_version_matching ts self scope = Inl e)
         \<and> (\<forall>scope. requested_version scope \<noteq> None \<longrightarrow>
               is_version_matching ts self scope = Inl (AttributeError ''__api_version__'')
               \<and> handle ts self scope = Inl (AttributeError ''__api_version__'')
               \<and> (fst (super_matches self scope) = FULL \<longrightarrow>
                    matches ts self scope = Inl (AttributeError ''__api_version__'')))"
  using assms
  by (auto simp: endpoint_version_def is_version_matching_def handle_def matches_def
           split: option.splits prod.splits)

theorem untagged_endpoint_fails_witness:
  "endpoint_version Map.empty (get_route ''/foo'' foo_v1) = Inl (AttributeError ''__api_version__'')
   \<and> is_version_matching Map.empty (get_route ''/foo'' foo_v1)
        ((get_foo [])\<lparr> requested_version := Some ''1'', latest_version := Some ''4'' \<rparr>)
       = Inl (AttributeError ''__api_version__'')
   \<and> handle Map.empty (get_route ''/foo'' foo_v1)
        ((get_foo [])\<lparr> requested_version := Some ''1'', latest_version := Some ''4'' \<rparr>)
       = Inl (AttributeError ''__api_version__'')
   \<and> matches Map.empty (get_route ''/foo'' foo_v1)
        ((get_foo [])\<lparr> requested_version := Some ''1'', latest_version := Some ''4'' \<rparr>)
       = Inl (AttributeError ''__api_version__'')"
proof -
  let ?r = "get_route ''/foo'' foo_v1"
  let ?s = "(get_foo [])\<lparr> requested_version := Some ''1'', latest_version := Some ''4'' \<rparr>"
  have u: "Map.empty (endpoint ?r) = (None :: string option)" by simp
  have r: "requested_version ?s \<noteq> None" by simp
  have f: "fst (super_matches ?r ?s) = FULL" by (simp add: get_route_def get_foo_def)
  note w = untagged_endpoint_fails [OF u]
  from w [THEN conjunct1] w [THEN conjunct2, THEN conjunct2, rule_format, OF r] f
  show ?thesis by blast
qed

end
